theory Spec2Isabelle
  imports Main
begin

unbundle bit_operations_syntax

section \<open>Python values, exceptions and sequence operations\<close>

text \<open>
  The exceptions that the two modules raise or let escape.  The ones raised by the
  modules themselves carry their message.
\<close>

datatype error =
    DMDerror string
  | USBError
  | SerialException
  | IndexError
  | KeyError
  | TypeError
  | ValueError string
  | ConnectionError string

text \<open>
  Sequencing of computations that may raise: the second runs on the value of the first
  unless the first raised.
\<close>

definition and_then :: "error + 'a \<Rightarrow> ('a \<Rightarrow> error + 'b) \<Rightarrow> error + 'b" where
  "and_then m f = (case m of Inl e \<Rightarrow> Inl e | Inr x \<Rightarrow> f x)"

text \<open>
  \<open>xs[i]\<close> on a Python sequence: a negative index counts from the end, and an index
  outside the sequence raises \<open>IndexError\<close>.
\<close>

definition py_index :: "'a list \<Rightarrow> int \<Rightarrow> error + 'a" where
  "py_index xs i =
     (if 0 \<le> i \<and> i < int (length xs) then Inr (xs ! nat i)
      else if i < 0 \<and> - int (length xs) \<le> i then Inr (xs ! nat (int (length xs) + i))
      else Inl IndexError)"

text \<open>
  \<open>xs[lo:hi]\<close>: a negative bound counts from the end, both bounds are clamped to the
  sequence, and an empty range gives the empty sequence.  A slice never raises.
\<close>

definition clamp_bound :: "nat \<Rightarrow> int \<Rightarrow> nat" where
  "clamp_bound n b = (if b < 0 then nat (max 0 (int n + b)) else min n (nat b))"

definition py_slice :: "'a list \<Rightarrow> int \<Rightarrow> int \<Rightarrow> 'a list" where
  "py_slice xs lo hi =
     (let l = clamp_bound (length xs) lo; h = clamp_bound (length xs) hi
      in take (h - l) (drop l xs))"

text \<open>\<open>xs[lo:]\<close>, the slice with its upper bound left out.\<close>

definition py_slice_from :: "'a list \<Rightarrow> int \<Rightarrow> 'a list" where
  "py_slice_from xs lo = drop (clamp_bound (length xs) lo) xs"

text \<open>
  \<open>bytes(xs)\<close> of a list of integers: every element must be in \<open>range(256)\<close>.
\<close>

definition py_bytes :: "int list \<Rightarrow> error + int list" where
  "py_bytes xs =
     (if list_all (\<lambda>b. 0 \<le> b \<and> b < 256) xs then Inr xs
      else Inl (ValueError ''bytes must be in range(0, 256)''))"


section \<open>WCIL.py: the RS485 current driver\<close>

text \<open>
  The serial port is an external collaborator.  Its behaviour is scripted in the device
  state: \<open>ser_wfail\<close> tells for each coming call of \<open>serial.write\<close> whether it raises
  \<open>SerialException\<close> (no entry left: the write succeeds), \<open>ser_replies\<close> holds what the
  coming calls of \<open>serial.read\<close> deliver (\<open>None\<close>: the read raises; no entry left: the
  read times out with no bytes).  \<open>ser_written\<close> logs the frames written, oldest first,
  and \<open>ser_slept\<close> adds up the arguments of \<open>time.sleep\<close> in milliseconds.
  Printing is not modelled.
\<close>

record rs485 =
  ser_wfail :: "bool list"
  ser_replies :: "int list option list"
  ser_written :: "int list list"
  ser_slept :: nat

text \<open>The attributes set once by \<open>__init__\<close> and never assigned again.\<close>

definition frame_header :: "int list" where
  "frame_header = [0x55, 0xAA]"

definition frame_tail :: "int list" where
  "frame_tail = [0xDA, 0xC3]"

definition address :: int where
  "address = 0x01"

definition serial_write :: "int list \<Rightarrow> rs485 \<Rightarrow> (error + unit) \<times> rs485" where
  "serial_write frame s =
     (case ser_wfail s of
        [] \<Rightarrow> (Inr (), s\<lparr>ser_written := ser_written s @ [frame]\<rparr>)
      | failing # rest \<Rightarrow>
          if failing then (Inl SerialException, s\<lparr>ser_wfail := rest\<rparr>)
          else (Inr (), s\<lparr>ser_wfail := rest, ser_written := ser_written s @ [frame]\<rparr>))"

definition serial_read :: "nat \<Rightarrow> rs485 \<Rightarrow> (error + int list) \<times> rs485" where
  "serial_read n s =
     (case ser_replies s of
        [] \<Rightarrow> (Inr [], s)
      | None # rest \<Rightarrow> (Inl SerialException, s\<lparr>ser_replies := rest\<rparr>)
      | Some bs # rest \<Rightarrow> (Inr (take n bs), s\<lparr>ser_replies := rest\<rparr>))"

definition calculate_checksum :: "int list \<Rightarrow> int" where
  "calculate_checksum data = sum_list data AND 0xFF"

definition build_frame :: "int \<Rightarrow> int list \<Rightarrow> error + int list" where
  "build_frame func_code data =
     (case py_bytes [address, func_code] of
        Inl e \<Rightarrow> Inl e
      | Inr af \<Rightarrow>
          (let frame = frame_header @ af @ data;
               checksum = calculate_checksum (py_slice frame 3 (- 2))
           in case py_bytes [checksum] of
                Inl e \<Rightarrow> Inl e
              | Inr c \<Rightarrow> Inr (frame @ c @ frame_tail)))"

text \<open>
  In \<open>_validate_response\<close> each \<open>or\<close> evaluates its right operand only when the left
  one is false; the indices 2, 3 and -3 are in range once the length check has passed.
\<close>

definition validate_response :: "int list \<Rightarrow> int \<Rightarrow> bool" where
  "validate_response response expected_func_code =
     (if length response < 8 then False
      else if take 2 response \<noteq> frame_header then False
      else if py_slice_from response (- 2) \<noteq> frame_tail then False
      else if py_index response 2 \<noteq> Inr address then False
      else if py_index response 3 \<noteq> Inr expected_func_code then False
      else Inr (calculate_checksum (py_slice response 3 (- 3))) = py_index response (- 3))"

text \<open>
  \<open>_send_and_receive\<close> catches \<open>SerialException\<close> from both the write and the read and
  returns \<open>None\<close> then, as it does for a response that does not validate.
\<close>

definition send_and_receive :: "int list \<Rightarrow> int \<Rightarrow> rs485 \<Rightarrow> int list option \<times> rs485" where
  "send_and_receive frame expected_func_code s =
     (case serial_write frame s of
        (Inl e, s1) \<Rightarrow> (None, s1)
      | (Inr u, s1) \<Rightarrow>
          (case serial_read 10 (s1\<lparr>ser_slept := ser_slept s1 + 50\<rparr>) of
             (Inl e, s2) \<Rightarrow> (None, s2)
           | (Inr response, s2) \<Rightarrow>
               if validate_response response expected_func_code then (Some response, s2)
               else (None, s2)))"

text \<open>
  \<open>if response and response[4:7] == data\<close>: the response must be neither \<open>None\<close> nor
  empty.
\<close>

definition response_echoes :: "int list option \<Rightarrow> int list \<Rightarrow> bool" where
  "response_echoes response data =
     (case response of
        None \<Rightarrow> False
      | Some r \<Rightarrow> r \<noteq> [] \<and> py_slice r 4 7 = data)"

definition reset_output :: "rs485 \<Rightarrow> (error + bool) \<times> rs485" where
  "reset_output s =
     (let data = [0x01, 0x00, 0x00]
      in case build_frame 0x02 data of
           Inl e \<Rightarrow> (Inl e, s)
         | Inr frame \<Rightarrow>
             (case send_and_receive frame 0x02 s of
                (response, s1) \<Rightarrow> (Inr (response_echoes response data), s1)))"

definition set_output_current :: "int \<Rightarrow> rs485 \<Rightarrow> (error + bool) \<times> rs485" where
  "set_output_current current_ma s =
     (if current_ma > 3500 then (Inr False, s)
      else
        let byte0 = drop_bit 8 current_ma AND 0xFF;
            byte1 = current_ma AND 0xFF
        in case py_bytes [byte0, byte1, 0x00] of
             Inl e \<Rightarrow> (Inl e, s)
           | Inr data \<Rightarrow>
               (case build_frame 0x03 data of
                  Inl e \<Rightarrow> (Inl e, s)
                | Inr frame \<Rightarrow>
                    (case send_and_receive frame 0x03 s of
                       (response, s1) \<Rightarrow> (Inr (response_echoes response data), s1))))"


section \<open>dlpyc900.py: bit strings\<close>

text \<open>
  \<open>number_to_bits(a, bitlen)\<close> is \<open>format(a, '0{bitlen}b')\<close>: the binary digits of
  \<open>a\<close>, most significant first, filled with \<open>0\<close> on the left up to \<open>bitlen\<close>
  characters.  The sign of a negative number comes first and counts for the width; a number
  with more digits than \<open>bitlen\<close> is not cut.
\<close>

fun bin_digits :: "nat \<Rightarrow> string" where
  "bin_digits n =
     (if n < 2 then [if n = 0 then CHR ''0'' else CHR ''1'']
      else bin_digits (n div 2) @ [if n mod 2 = 0 then CHR ''0'' else CHR ''1''])"

declare bin_digits.simps [simp del]

definition zero_fill :: "nat \<Rightarrow> string \<Rightarrow> string" where
  "zero_fill width s = replicate (width - length s) (CHR ''0'') @ s"

definition number_to_bits :: "int \<Rightarrow> nat \<Rightarrow> string" where
  "number_to_bits a bitlen =
     (if a < 0 then CHR ''-'' # zero_fill (bitlen - 1) (bin_digits (nat (- a)))
      else zero_fill bitlen (bin_digits (nat a)))"

text \<open>
  \<open>int(s, 2)\<close> on the strings that \<open>number_to_bits\<close> and the slices of its results
  can be: an optional sign and then at least one binary digit.  Anything else is a
  \<open>ValueError\<close> here (Python also accepts surrounding blanks, a \<open>0b\<close> prefix and
  single underscores between digits, which no caller produces).
\<close>

definition is_bit :: "char \<Rightarrow> bool" where
  "is_bit c = (c = CHR ''0'' \<or> c = CHR ''1'')"

definition bits_value :: "string \<Rightarrow> nat" where
  "bits_value s = foldl (\<lambda>acc c. 2 * acc + (if c = CHR ''1'' then 1 else 0)) 0 s"

definition unsigned_base2 :: "string \<Rightarrow> error + int" where
  "unsigned_base2 ds =
     (if ds \<noteq> [] \<and> list_all is_bit ds then Inr (int (bits_value ds))
      else Inl (ValueError ''invalid literal for int() with base 2''))"

definition int_base2 :: "string \<Rightarrow> error + int" where
  "int_base2 s =
     (if s \<noteq> [] \<and> hd s = CHR ''-'' then map_sum id uminus (unsigned_base2 (tl s))
      else if s \<noteq> [] \<and> hd s = CHR ''+'' then unsigned_base2 (tl s)
      else unsigned_base2 s)"

text \<open>\<open>[bits[i:i+8] for i in range(0, len(bits), 8)]\<close>\<close>

fun chunks8 :: "string \<Rightarrow> string list" where
  "chunks8 [] = []"
| "chunks8 (c # cs) = take 8 (c # cs) # chunks8 (drop 8 (c # cs))"

text \<open>A list comprehension stops at the first element that raises.\<close>

fun collect :: "(error + 'a) list \<Rightarrow> error + 'a list" where
  "collect [] = Inr []"
| "collect (Inl e # rs) = Inl e"
| "collect (Inr x # rs) = (case collect rs of Inl e \<Rightarrow> Inl e | Inr xs \<Rightarrow> Inr (x # xs))"

definition bits_to_bytes :: "string \<Rightarrow> error + int list" where
  "bits_to_bytes bits = map_sum id rev (collect (map int_base2 (chunks8 bits)))"


section \<open>dlpyc900.py: replies\<close>

text \<open>The tuple \<open>(error_flag, flag_byte, sequence_byte, length, data)\<close> of \<open>parse_reply\<close>.\<close>

record reply_frame =
  reply_error_flag :: bool
  reply_flag_byte :: string
  reply_sequence_byte :: int
  reply_length :: int
  reply_data :: "int list"

definition parse_reply :: "int list option \<Rightarrow> error + reply_frame option" where
  "parse_reply reply =
     (case reply of
        None \<Rightarrow> Inr None
      | Some r \<Rightarrow>
          and_then (py_index r 0) (\<lambda>b0.
          and_then (py_index r 1) (\<lambda>b1.
          and_then (py_index r 2) (\<lambda>b2.
          and_then (py_index r 3) (\<lambda>b3.
            let len = b2 OR push_bit 8 b3
            in Inr (Some \<lparr>reply_error_flag = (b0 AND 0x20 \<noteq> 0),
                          reply_flag_byte = number_to_bits b0 8,
                          reply_sequence_byte = b1,
                          reply_length = len,
                          reply_data = py_slice r 4 (4 + len)\<rparr>))))))"


section \<open>dlpyc900.py: the USB transport and \<open>send_command\<close>\<close>

text \<open>
  The state of a \<open>dmd\<close> object: its cached \<open>current_mode\<close>, and the USB device, an
  external collaborator whose behaviour is scripted.  \<open>write_script\<close> tells for each coming
  call of \<open>dev.write\<close> whether it raises \<open>USBError\<close> (no entry left: the write
  succeeds); \<open>read_script\<close> holds what the coming calls of \<open>dev.read\<close> deliver
  (\<open>None\<close>, or no entry left: the read raises \<open>USBError\<close>).  \<open>written\<close> logs the
  packets that were written, oldest first, \<open>calls\<close> counts every call of \<open>dev.write\<close>
  and \<open>dev.read\<close>, and \<open>slept\<close> adds up the arguments of \<open>time.sleep\<close> in
  milliseconds.
\<close>

record dmd =
  current_mode :: string
  write_script :: "bool list"
  read_script :: "int list option list"
  written :: "int list list"
  calls :: nat
  slept :: nat

definition dev_write :: "int list \<Rightarrow> dmd \<Rightarrow> (error + unit) \<times> dmd" where
  "dev_write buffer d =
     (case write_script d of
        [] \<Rightarrow> (Inr (), d\<lparr>written := written d @ [buffer], calls := calls d + 1\<rparr>)
      | failing # rest \<Rightarrow>
          if failing then (Inl USBError, d\<lparr>write_script := rest, calls := calls d + 1\<rparr>)
          else (Inr (), d\<lparr>write_script := rest, written := written d @ [buffer],
                           calls := calls d + 1\<rparr>))"

definition dev_read :: "nat \<Rightarrow> dmd \<Rightarrow> (error + int list) \<times> dmd" where
  "dev_read n d =
     (case read_script d of
        [] \<Rightarrow> (Inl USBError, d\<lparr>calls := calls d + 1\<rparr>)
      | None # rest \<Rightarrow> (Inl USBError, d\<lparr>read_script := rest, calls := calls d + 1\<rparr>)
      | Some bs # rest \<Rightarrow> (Inr (take n bs), d\<lparr>read_script := rest, calls := calls d + 1\<rparr>))"

definition sleep :: "nat \<Rightarrow> dmd \<Rightarrow> dmd" where
  "sleep ms d = d\<lparr>slept := slept d + ms\<rparr>"

text \<open>
  \<open>try: self.dev.write(1, buffer)  except usb.USBError: time.sleep(0.1); self.dev.write(1, buffer)\<close>
\<close>

definition write_retry :: "int list \<Rightarrow> dmd \<Rightarrow> (error + unit) \<times> dmd" where
  "write_retry buffer d =
     (case dev_write buffer d of
        (Inl USBError, d1) \<Rightarrow> dev_write buffer (sleep 100 d1)
      | (Inl e, d1) \<Rightarrow> (Inl e, d1)
      | (Inr u, d1) \<Rightarrow> (Inr u, d1))"

text \<open>The first six bytes of the buffer (lines 89 to 106 of \<open>send_command\<close>).\<close>

definition command_header :: "string \<Rightarrow> int \<Rightarrow> int \<Rightarrow> int list \<Rightarrow> error + int list" where
  "command_header mode sequence_byte command payload =
     (let flag_string = (if mode = ''r'' then ''1'' else ''0'') @ ''1000000''
      in and_then (bits_to_bytes flag_string) (\<lambda>fb.
         and_then (py_index fb 0) (\<lambda>flag.
         and_then (bits_to_bytes (number_to_bits (int (length payload) + 2) 16)) (\<lambda>temp.
         and_then (py_index temp 0) (\<lambda>t0.
         and_then (py_index temp 1) (\<lambda>t1.
           Inr [flag, sequence_byte, t0, t1,
                command AND 0xFF, drop_bit 8 command AND 0xFF]))))))"

text \<open>The \<open>while len(remaining_data) > 0\<close> loop.\<close>

fun write_remaining :: "int list \<Rightarrow> dmd \<Rightarrow> (error + unit) \<times> dmd" where
  "write_remaining remaining_data d =
     (if length remaining_data > 0 then
        (let chunk = take 64 remaining_data;
             rest = drop 64 remaining_data;
             chunk' = (if length chunk < 64 then chunk @ replicate (64 - length chunk) 0x00
                       else chunk)
         in case write_retry chunk' d of
              (Inl e, d1) \<Rightarrow> (Inl e, d1)
            | (Inr u, d1) \<Rightarrow> write_remaining rest d1)
      else (Inr (), d))"

declare write_remaining.simps [simp del]

text \<open>The two branches of \<open>if len(buffer) + len(payload) < 65\<close>.\<close>

definition write_frame :: "int list \<Rightarrow> int list \<Rightarrow> dmd \<Rightarrow> (error + unit) \<times> dmd" where
  "write_frame buffer payload d =
     (if length buffer + length payload < 65 then
        (let buffer1 = buffer @ payload;
             buffer2 = buffer1 @ replicate (64 - length buffer1) 0x00
         in write_retry buffer2 d)
      else
        (let buffer1 = buffer @ take 58 payload
         in case dev_write buffer1 d of
              (Inl e, d1) \<Rightarrow> (Inl e, d1)
            | (Inr u, d1) \<Rightarrow> write_remaining (drop 58 payload) d1))"

text \<open>The reply, read only for mode \<open>'r'\<close>.\<close>

definition read_reply :: "string \<Rightarrow> dmd \<Rightarrow> (error + reply_frame option) \<times> dmd" where
  "read_reply mode d =
     (if mode = ''r'' then
        (case dev_read 64 (sleep 100 d) of
           (Inl e, d1) \<Rightarrow> (Inl e, d1)
         | (Inr answer, d1) \<Rightarrow>
             (case py_index answer 0 of
                Inl e \<Rightarrow> (Inl e, d1)
              | Inr a0 \<Rightarrow>
                  if a0 AND 0x20 \<noteq> 0 then (Inl (DMDerror ''DMD reply has error flag set!''), d1)
                  else (parse_reply (Some answer), d1)))
      else (parse_reply None, d))"

definition send_command ::
  "string \<Rightarrow> int \<Rightarrow> int \<Rightarrow> int list option \<Rightarrow> dmd \<Rightarrow> (error + reply_frame option) \<times> dmd" where
  "send_command mode sequence_byte command payload_arg d =
     (let payload = (case payload_arg of None \<Rightarrow> [] | Some p \<Rightarrow> p)
      in case command_header mode sequence_byte command payload of
           Inl e \<Rightarrow> (Inl e, d)
         | Inr buffer \<Rightarrow>
             if length payload + 6 > 512
             then (Inl (DMDerror ''Payload exceeds 512-byte buffer limit''), d)
             else (case write_frame buffer payload d of
                     (Inl e, d1) \<Rightarrow> (Inl e, d1)
                   | (Inr u, d1) \<Rightarrow> read_reply mode d1))"


section \<open>dlpyc900.py: status checks, display mode, pattern start and power mode\<close>

text \<open>
  Python compares a \<open>str\<close> with an \<open>int\<close> without raising: they are never equal.
  The two status checks compare characters of a bit string with the integer \<open>0\<close>, so
  the model keeps the two kinds of value apart.
\<close>

datatype pyval = PyStr string | PyInt int

fun py_eq :: "pyval \<Rightarrow> pyval \<Rightarrow> bool" where
  "py_eq (PyStr a) (PyStr b) = (a = b)"
| "py_eq (PyInt a) (PyInt b) = (a = b)"
| "py_eq (PyStr a) (PyInt b) = False"
| "py_eq (PyInt a) (PyStr b) = False"

text \<open>\<open>s[i]\<close> on a string is the string of that one character.\<close>

definition str_index :: "string \<Rightarrow> int \<Rightarrow> error + pyval" where
  "str_index s i = map_sum id (\<lambda>c. PyStr [c]) (py_index s i)"

text \<open>
  \<open>ans[-1][0]\<close>: the first data byte of a reply.  A write returns \<open>None\<close>, which
  cannot be indexed.
\<close>

definition first_data_byte :: "reply_frame option \<Rightarrow> error + int" where
  "first_data_byte ans =
     (case ans of None \<Rightarrow> Inl TypeError | Some r \<Rightarrow> py_index (reply_data r) 0)"

definition check_communication_status :: "dmd \<Rightarrow> (error + unit) \<times> dmd" where
  "check_communication_status d =
     (case send_command ''r'' 10 0x1A49 (Some []) d of
        (Inl e, d1) \<Rightarrow> (Inl e, d1)
      | (Inr ans, d1) \<Rightarrow>
          (and_then (first_data_byte ans) (\<lambda>status.
             let ansbit = number_to_bits status 8
             in and_then (str_index ansbit 0) (\<lambda>a0.
                and_then (str_index ansbit 2) (\<lambda>a2.
                  if \<not> (py_eq a0 a2 \<and> py_eq a2 (PyInt 0))
                  then Inl (DMDerror ''Controller cannot communicate with DMD'')
                  else Inr ()))), d1))"

definition check_system_status :: "dmd \<Rightarrow> (error + unit) \<times> dmd" where
  "check_system_status d =
     (case send_command ''r'' 10 0x1A0B (Some []) d of
        (Inl e, d1) \<Rightarrow> (Inl e, d1)
      | (Inr ans, d1) \<Rightarrow>
          (and_then (first_data_byte ans) (\<lambda>status.
             let ansbit = number_to_bits status 8
             in and_then (str_index ansbit 0) (\<lambda>a0.
                  if py_eq a0 (PyInt 0)
                  then Inl (DMDerror ''Internal Memory Test failed'')
                  else Inr ())), d1))"

definition display_modes :: "(string \<times> int) list" where
  "display_modes = [(''video'', 0), (''pattern'', 1), (''video-pattern'', 2), (''otf'', 3)]"

definition display_modes_inv :: "(int \<times> string) list" where
  "display_modes_inv = [(0, ''video''), (1, ''pattern''), (2, ''video-pattern''), (3, ''otf'')]"

definition get_display_mode :: "dmd \<Rightarrow> (error + string) \<times> dmd" where
  "get_display_mode d =
     (case send_command ''r'' 0x00 0x1A1B (Some []) d of
        (Inl e, d1) \<Rightarrow> (Inl e, d1)
      | (Inr ans, d1) \<Rightarrow>
          (case first_data_byte ans of
             Inl e \<Rightarrow> (Inl e, d1)
           | Inr b \<Rightarrow>
               (case map_of display_modes_inv b of
                  None \<Rightarrow> (Inl KeyError, d1)
                | Some m \<Rightarrow> (Inr m, d1\<lparr>current_mode := m\<rparr>))))"

definition video_pattern_error :: error where
  "video_pattern_error =
     ValueError (''To change to Video Pattern Mode the system must first change to Video Mode ''
       @ ''with the desired source enabled and sync must be locked before switching to ''
       @ ''Video Pattern Mode.'')"

definition set_display_mode :: "string \<Rightarrow> dmd \<Rightarrow> (error + unit) \<times> dmd" where
  "set_display_mode mode d =
     (if mode \<notin> set (map fst display_modes)
        then (Inl (ValueError (''mode '' @ [CHR 0x27] @ mode @ [CHR 0x27] @ '' unknown'')), d)
      else if mode = ''video-pattern'' \<and> current_mode d \<noteq> ''video''
        then (Inl video_pattern_error, d)
      else
        (case map_of display_modes mode of
           None \<Rightarrow> (Inl KeyError, d)
         | Some code \<Rightarrow>
             (case send_command ''w'' 0x00 0x1A1B (Some [code]) d of
                (Inl e, d1) \<Rightarrow> (Inl e, d1)
              | (Inr ans, d1) \<Rightarrow>
                  (case (case get_display_mode (sleep 500 d1) of
                           (Inl IndexError, d2) \<Rightarrow> get_display_mode d2
                         | (Inl e, d2) \<Rightarrow> (Inl e, d2)
                         | (Inr m, d2) \<Rightarrow> (Inr m, d2)) of
                     (Inl e, d3) \<Rightarrow> (Inl e, d3)
                   | (Inr new_display_mode, d3) \<Rightarrow>
                       if new_display_mode \<noteq> mode
                       then (Inl (ConnectionError ''Mode activation failed.''), d3)
                       else (Inr (), d3)))))"

text \<open>The payload that \<open>start_pattern_from_LUT\<close> builds, and the command that sends it.\<close>

definition start_pattern_from_LUT_payload :: "int \<Rightarrow> int \<Rightarrow> error + int list" where
  "start_pattern_from_LUT_payload nr_of_LUT_entries nr_of_patterns_to_display =
     and_then (bits_to_bytes (number_to_bits nr_of_LUT_entries 10)) (\<lambda>byte_01.
     and_then (bits_to_bytes (number_to_bits nr_of_patterns_to_display 32)) (\<lambda>byte_25.
       Inr (byte_01 @ byte_25)))"

definition start_pattern_from_LUT :: "int \<Rightarrow> int \<Rightarrow> dmd \<Rightarrow> (error + reply_frame option) \<times> dmd" where
  "start_pattern_from_LUT nr_of_LUT_entries nr_of_patterns_to_display d =
     (case start_pattern_from_LUT_payload nr_of_LUT_entries nr_of_patterns_to_display of
        Inl e \<Rightarrow> (Inl e, d)
      | Inr payload \<Rightarrow> send_command ''w'' 1 0x1A31 (Some payload) d)"

text \<open>
  \<open>get_current_powermode\<close> returns a string, or \<open>None\<close> where the function body ends
  without a \<open>return\<close>.
\<close>

definition powermode_of :: "int \<Rightarrow> int \<Rightarrow> string option" where
  "powermode_of idlestatus sleepstatus =
     (if sleepstatus = 0 then
        (if idlestatus = 0 then Some ''normal''
         else if idlestatus = 1 then Some ''idle''
         else None)
      else if sleepstatus = 1 then Some ''standby''
      else Some ''undocumented state'')"

definition get_current_powermode :: "dmd \<Rightarrow> (error + string option) \<times> dmd" where
  "get_current_powermode d =
     (case send_command ''r'' 0x00 0x0201 (Some []) d of
        (Inl e, d1) \<Rightarrow> (Inl e, d1)
      | (Inr ans1, d1) \<Rightarrow>
          (case first_data_byte ans1 of
             Inl e \<Rightarrow> (Inl e, d1)
           | Inr idlestatus \<Rightarrow>
               (case send_command ''r'' 0x00 0x0200 (Some []) d1 of
                  (Inl e, d2) \<Rightarrow> (Inl e, d2)
                | (Inr ans2, d2) \<Rightarrow>
                    (case first_data_byte ans2 of
                       Inl e \<Rightarrow> (Inl e, d2)
                     | Inr sleepstatus \<Rightarrow> (Inr (powermode_of idlestatus sleepstatus), d2)))))"


section \<open>Descriptions used in the statements\<close>

text \<open>
  The chunks that the \<open>while\<close> loop of \<open>send_command\<close> hands to \<open>dev.write\<close>, in
  order: in each round the next 64 bytes of the remaining data, filled with zeros up to 64
  bytes.
\<close>

fun padded_chunks :: "int list \<Rightarrow> int list list" where
  "padded_chunks xs =
     (if length xs > 0
      then (take 64 xs @ replicate (64 - length (take 64 xs)) 0x00) # padded_chunks (drop 64 xs)
      else [])"

declare padded_chunks.simps [simp del]

text \<open>
  The six header bytes as the specification words them: the flag byte with bit 7 set for a
  read and bits 6 to 0 equal to \<open>1000000\<close>, the sequence byte, the payload length plus 2
  over two bytes and the command over two bytes, each least significant byte first.
\<close>

definition spec_header :: "string \<Rightarrow> int \<Rightarrow> int \<Rightarrow> int list \<Rightarrow> int list" where
  "spec_header mode sequence_byte command payload =
     [if mode = ''r'' then 0xC0 else 0x40,
      sequence_byte,
      int ((length payload + 2) mod 256), int ((length payload + 2) div 256),
      command mod 256, command div 256 mod 256]"


section \<open>Bit strings and bytes\<close>

lemma bits_value_Nil: "bits_value [] = 0"
  by (simp add: bits_value_def)

lemma bits_value_snoc:
  "bits_value (s @ [c]) = 2 * bits_value s + (if c = CHR ''1'' then 1 else 0)"
  by (simp add: bits_value_def)

lemma bits_value_append:
  "bits_value (xs @ ys) = bits_value xs * 2 ^ length ys + bits_value ys"
proof (induction ys rule: rev_induct)
  case Nil
  show ?case by (simp add: bits_value_Nil)
next
  case (snoc y ys)
  have "bits_value (xs @ ys @ [y]) = 2 * bits_value (xs @ ys) + (if y = CHR ''1'' then 1 else 0)"
    using bits_value_snoc [of "xs @ ys" y] by simp
  then show ?case
    by (simp add: snoc.IH bits_value_snoc algebra_simps)
qed

lemma bits_value_less: "bits_value s < 2 ^ length s"
proof (induction s rule: rev_induct)
  case Nil
  show ?case by (simp add: bits_value_Nil)
next
  case (snoc c s)
  then show ?case by (simp add: bits_value_snoc)
qed

lemma bits_value_zeros: "bits_value (replicate k (CHR ''0'')) = 0"
proof (induction k)
  case 0
  show ?case by (simp add: bits_value_Nil)
next
  case (Suc k)
  have "replicate (Suc k) (CHR ''0'') = replicate k (CHR ''0'') @ [CHR ''0'']"
    by (simp add: replicate_append_same)
  then show ?case using Suc by (simp only: bits_value_snoc) simp
qed

lemma is_bit_digit: "is_bit (if b then CHR ''0'' else CHR ''1'')"
  by (simp add: is_bit_def)

lemma is_bit_bin_digits: "list_all is_bit (bin_digits n)"
proof (induction n rule: bin_digits.induct)
  case (1 n)
  show ?case
  proof (cases "n < 2")
    case True
    then show ?thesis by (subst bin_digits.simps) (simp add: is_bit_digit)
  next
    case False
    with 1 [OF False] show ?thesis
      by (subst bin_digits.simps) (simp add: is_bit_digit)
  qed
qed

lemma bits_value_bin_digits: "bits_value (bin_digits n) = n"
proof (induction n rule: bin_digits.induct)
  case (1 n)
  show ?case
  proof (cases "n < 2")
    case True
    then have "n = 0 \<or> n = 1" by arith
    then show ?thesis
      by (subst bin_digits.simps) (auto simp: bits_value_def)
  next
    case False
    have "bits_value (bin_digits n)
            = bits_value (bin_digits (n div 2) @ [if n mod 2 = 0 then CHR ''0'' else CHR ''1''])"
      using False by (subst bin_digits.simps) simp
    also have "\<dots> = 2 * (n div 2) + (if n mod 2 = 0 then 0 else 1)"
      using 1 [OF False] by (simp only: bits_value_snoc) simp
    also have "\<dots> = n" by presburger
    finally show ?thesis .
  qed
qed

lemma length_bin_digits: "0 < k \<Longrightarrow> n < 2 ^ k \<Longrightarrow> length (bin_digits n) \<le> k"
proof (induction n arbitrary: k rule: bin_digits.induct)
  case (1 n)
  show ?case
  proof (cases "n < 2")
    case True
    with 1(2) show ?thesis by (subst bin_digits.simps) simp
  next
    case False
    with 1(3) have "1 < k" by (cases k; cases "k - 1") auto
    then obtain j where k: "k = Suc j" and j: "0 < j" by (cases k) auto
    from 1(3) k have "n div 2 < 2 ^ j" by auto
    from 1(1) [OF False j this] k False show ?thesis
      by (subst bin_digits.simps) simp
  qed
qed

lemma bits_value_zero_fill: "bits_value (zero_fill w s) = bits_value s"
  by (simp add: zero_fill_def bits_value_append bits_value_zeros)

lemma is_bit_zeros: "list_all is_bit (replicate k (CHR ''0''))"
  by (induction k) (simp_all add: is_bit_def)

lemma is_bit_zero_fill: "list_all is_bit s \<Longrightarrow> list_all is_bit (zero_fill w s)"
  by (simp add: zero_fill_def is_bit_zeros)

lemma length_zero_fill: "length s \<le> w \<Longrightarrow> length (zero_fill w s) = w"
  by (simp add: zero_fill_def)

text \<open>A string of binary digits is read unsigned.\<close>

lemma int_base2_bits:
  assumes "s \<noteq> []" and "list_all is_bit s"
  shows "int_base2 s = Inr (int (bits_value s))"
proof -
  from assms have "is_bit (hd s)" by (cases s) auto
  then have "hd s \<noteq> CHR ''-''" and "hd s \<noteq> CHR ''+''" by (auto simp: is_bit_def)
  with assms show ?thesis by (simp add: int_base2_def unsigned_base2_def)
qed

lemma chunks8_two:
  assumes "length s = 8 + k" and "0 < k" and "k \<le> 8"
  shows "chunks8 s = [take 8 s, drop 8 s]"
proof -
  from assms obtain c cs where s: "s = c # cs" by (cases s) auto
  have first: "chunks8 s = take 8 s # chunks8 (drop 8 s)" by (simp add: s)
  have len: "length (drop 8 s) = k" using assms(1) by simp
  with assms(2) obtain c' cs' where d: "drop 8 s = c' # cs'" by (cases "drop 8 s") auto
  have "length (c' # cs') \<le> 8" using len assms(3) unfolding d by simp
  then have "chunks8 (c' # cs') = [c' # cs']" by simp
  with first d show ?thesis by simp
qed

text \<open>
  A bit string of 9 to 16 characters is cut after its first eight characters: the second
  piece has the low \<open>k\<close> bits, the first the bits above them.
\<close>

lemma bits_to_bytes_two_chunks:
  assumes "0 < k" and "k \<le> 8" and "n < 2 ^ (8 + k)"
  shows "bits_to_bytes (number_to_bits (int n) (8 + k)) = Inr [int (n mod 2 ^ k), int (n div 2 ^ k)]"
proof -
  define s where "s = zero_fill (8 + k) (bin_digits n)"
  have n2b: "number_to_bits (int n) (8 + k) = s" by (simp add: number_to_bits_def s_def)
  have "length (bin_digits n) \<le> 8 + k" using assms(3) by (intro length_bin_digits) simp_all
  then have len: "length s = 8 + k" by (simp add: s_def length_zero_fill)
  have bits: "list_all is_bit s" by (simp add: s_def is_bit_zero_fill is_bit_bin_digits)
  have val: "bits_value s = n" by (simp add: s_def bits_value_zero_fill bits_value_bin_digits)
  have hi_bits: "list_all is_bit (take 8 s)" and lo_bits: "list_all is_bit (drop 8 s)"
    using bits by (auto simp: list_all_iff dest: in_set_takeD in_set_dropD)
  have lo_len: "length (drop 8 s) = k" using len by simp
  have hi_ne: "take 8 s \<noteq> []" and lo_ne: "drop 8 s \<noteq> []" using len assms(1) by auto
  have "bits_value (take 8 s @ drop 8 s)
          = bits_value (take 8 s) * 2 ^ length (drop 8 s) + bits_value (drop 8 s)"
    by (rule bits_value_append)
  then have split: "n = bits_value (take 8 s) * 2 ^ k + bits_value (drop 8 s)"
    using lo_len val by simp
  have "bits_value (drop 8 s) < 2 ^ length (drop 8 s)" by (rule bits_value_less)
  then have lo_less: "bits_value (drop 8 s) < 2 ^ k" using lo_len by simp
  have lo: "bits_value (drop 8 s) = n mod 2 ^ k"
    by (subst split) (simp add: lo_less)
  have hi: "bits_value (take 8 s) = n div 2 ^ k"
    by (subst split) (simp add: lo_less)
  have c_hi: "int_base2 (take 8 s) = Inr (int (n div 2 ^ k))"
    using int_base2_bits [OF hi_ne hi_bits] by (simp only: hi)
  have c_lo: "int_base2 (drop 8 s) = Inr (int (n mod 2 ^ k))"
    using int_base2_bits [OF lo_ne lo_bits] by (simp only: lo)
  show ?thesis
    unfolding n2b bits_to_bytes_def chunks8_two [OF len assms(1,2)]
    by (simp add: c_hi c_lo)
qed

lemma bits_to_bytes_16:
  assumes "n < 65536"
  shows "bits_to_bytes (number_to_bits (int n) 16) = Inr [int (n mod 256), int (n div 256)]"
  using bits_to_bytes_two_chunks [of 8 n] assms by simp

text \<open>
  The 10-bit entry count of \<open>start_pattern_from_LUT\<close>: the first byte has its two low
  bits, the second byte the eight bits above.
\<close>

lemma bits_to_bytes_10:
  assumes "n < 1024"
  shows "bits_to_bytes (number_to_bits (int n) 10) = Inr [int (n mod 4), int (n div 4)]"
  using bits_to_bytes_two_chunks [of 2 n] assms by simp


section \<open>The header and the packets of \<open>send_command\<close>\<close>

lemma flag_bytes:
  "bits_to_bytes ''11000000'' = Inr [0xC0]" "bits_to_bytes ''01000000'' = Inr [0x40]"
  by code_simp+

lemma py_index_first4:
  "py_index (a # xs) 0 = Inr a"
  "py_index (a # b # xs) 1 = Inr b"
  "py_index (a # b # c # xs) 2 = Inr c"
  "py_index (a # b # c # e # xs) 3 = Inr e"
  by (simp_all add: py_index_def)

lemma command_header_bytes:
  assumes "length payload + 2 < 65536"
  shows "command_header mode sequence_byte command payload =
           Inr [if mode = ''r'' then 0xC0 else 0x40, sequence_byte,
                int ((length payload + 2) mod 256), int ((length payload + 2) div 256),
                command AND 0xFF, drop_bit 8 command AND 0xFF]"
proof -
  have len: "bits_to_bytes (number_to_bits (int (length payload) + 2) 16)
               = Inr [int ((length payload + 2) mod 256), int ((length payload + 2) div 256)]"
    using bits_to_bytes_16 [OF assms] by (simp add: add.commute)
  show ?thesis
    unfolding command_header_def Let_def len
    by (cases "mode = ''r''") (simp_all add: and_then_def flag_bytes py_index_first4)
qed

lemma dev_write_Inr: "dev_write b d = (Inr u, d1) \<Longrightarrow> written d1 = written d @ [b]"
  by (auto simp: dev_write_def split: list.splits if_splits)

lemma dev_write_Inl: "dev_write b d = (Inl e, d1) \<Longrightarrow> written d1 = written d"
  by (auto simp: dev_write_def split: list.splits if_splits)

lemma written_sleep: "written (sleep ms d) = written d"
  by (simp add: sleep_def)

lemma write_retry_Inr:
  assumes "write_retry b d = (Inr u, d1)"
  shows "written d1 = written d @ [b]"
proof (cases "dev_write b d")
  case (Pair r d2)
  show ?thesis
  proof (cases r)
    case (Inr v)
    with Pair assms show ?thesis by (simp add: write_retry_def dev_write_Inr)
  next
    case (Inl e)
    with Pair have same: "written d2 = written d" by (simp add: dev_write_Inl)
    from Inl Pair assms have "e = USBError" and "dev_write b (sleep 100 d2) = (Inr u, d1)"
      by (auto simp: write_retry_def split: error.splits)
    then show ?thesis using same dev_write_Inr [of b "sleep 100 d2" u d1]
      by (simp add: written_sleep)
  qed
qed


lemma write_remaining_Inr:
  "write_remaining remaining d = (Inr u, d1) \<Longrightarrow> written d1 = written d @ padded_chunks remaining"
proof (induction remaining d rule: write_remaining.induct)
  case (1 remaining_data d)
  show ?case
  proof (cases "length remaining_data > 0")
    case False
    with 1(2) show ?thesis
      by (simp add: write_remaining.simps [of remaining_data] padded_chunks.simps [of "[]"])
  next
    case True
    define chunk where "chunk = take 64 remaining_data @ replicate (64 - length (take 64 remaining_data)) (0::int)"
    have chunk': "(if length (take 64 remaining_data) < 64
                   then take 64 remaining_data @ replicate (64 - length (take 64 remaining_data)) 0
                   else take 64 remaining_data) = chunk"
      by (simp add: chunk_def)
    have unfold: "write_remaining remaining_data d =
        (case write_retry chunk d of
           (Inl e, d1) \<Rightarrow> (Inl e, d1)
         | (Inr u, d1) \<Rightarrow> write_remaining (drop 64 remaining_data) d1)"
      by (subst write_remaining.simps) (simp only: True if_True Let_def chunk')
    obtain r d2 where wr: "write_retry chunk d = (r, d2)" by (cases "write_retry chunk d")
    from 1(2) wr obtain v where r: "r = Inr v"
      and rest: "write_remaining (drop 64 remaining_data) d2 = (Inr u, d1)"
      unfolding unfold by (cases r) simp_all
    have "written d2 = written d @ [chunk]"
      using wr r by (simp add: write_retry_Inr)
    moreover have "written d1 = written d2 @ padded_chunks (drop 64 remaining_data)"
      using 1(1) [OF True refl refl refl _ refl rest] wr r chunk' by simp
    ultimately show ?thesis
      using True by (simp add: padded_chunks.simps [of remaining_data] chunk_def)
  qed
qed

lemma length_padded_chunks: "length (padded_chunks xs) = (length xs + 63) div 64"
proof (induction xs rule: padded_chunks.induct)
  case (1 xs)
  show ?case
  proof (cases "length xs > 0")
    case False
    then show ?thesis by (simp add: padded_chunks.simps [of "[]"])
  next
    case True
    have "length (padded_chunks xs) = Suc (length (padded_chunks (drop 64 xs)))"
      using True by (subst padded_chunks.simps) simp
    also have "\<dots> = Suc ((length xs - 64 + 63) div 64)"
      using 1 [OF True] by simp
    also have "\<dots> = (length xs + 63) div 64"
    proof (cases "length xs < 64")
      case True
      have lower: "64 * 1 \<le> length xs + 63"
        using \<open>0 < length xs\<close> by linarith
      have upper: "length xs + 63 < 64 * Suc 1"
        using True by simp
      have "(length xs + 63) div 64 = 1"
        using lower upper by (rule div_nat_eqI)
      with True show ?thesis by simp
    next
      case False
      then have "length xs + 63 = (length xs - 64 + 63) + 64" by simp
      then have "(length xs + 63) div 64 = ((length xs - 64 + 63) + 64) div 64" by simp
      also have "\<dots> = Suc ((length xs - 64 + 63) div 64)" by (simp only: div_add_self2)
      finally show ?thesis by simp
    qed
    finally show ?thesis .
  qed
qed

lemma packet_length_padded_chunks: "p \<in> set (padded_chunks xs) \<Longrightarrow> length p = 64"
proof (induction xs rule: padded_chunks.induct)
  case (1 xs)
  show ?case
  proof (cases "length xs > 0")
    case False
    with 1(2) show ?thesis by (simp add: padded_chunks.simps [of "[]"])
  next
    case True
    from 1(2) True
    have "p = take 64 xs @ replicate (64 - length (take 64 xs)) 0 \<or> p \<in> set (padded_chunks (drop 64 xs))"
      by (subst (asm) padded_chunks.simps) simp
    then show ?thesis
    proof
      assume "p = take 64 xs @ replicate (64 - length (take 64 xs)) 0"
      then show ?thesis by simp
    next
      assume "p \<in> set (padded_chunks (drop 64 xs))"
      then show ?thesis by (rule 1(1) [OF True])
    qed
  qed
qed

lemma concat_padded_chunks:
  "concat (padded_chunks xs) = xs @ replicate ((64 - length xs mod 64) mod 64) 0"
proof (induction xs rule: padded_chunks.induct)
  case (1 xs)
  show ?case
  proof (cases "length xs > 0")
    case False
    then show ?thesis by (simp add: padded_chunks.simps [of "[]"])
  next
    case True
    have step: "concat (padded_chunks xs)
                  = take 64 xs @ replicate (64 - length (take 64 xs)) 0 @ concat (padded_chunks (drop 64 xs))"
      using True by (subst padded_chunks.simps) simp
    show ?thesis
    proof (cases "length xs < 64")
      case True
      then have "drop 64 xs = []" and "take 64 xs = xs" by simp_all
      moreover have "(64 - length xs mod 64) mod 64 = 64 - length xs"
        using True \<open>0 < length xs\<close> by simp
      ultimately show ?thesis
        using step by (simp add: padded_chunks.simps [of "[]"])
    next
      case False
      then have "(length xs - 64) mod 64 = length xs mod 64"
        by (simp add: le_mod_geq)
      with step False 1 [OF True] show ?thesis by simp
    qed
  qed
qed

lemma write_frame_Inr:
  assumes "write_frame buffer payload d = (Inr u, d1)" and "length buffer = 6"
  shows "written d1 = written d @
           (if length payload \<le> 58 then [buffer @ payload @ replicate (58 - length payload) 0]
            else (buffer @ take 58 payload) # padded_chunks (drop 58 payload))"
proof (cases "length payload \<le> 58")
  case True
  with assms have "write_retry (buffer @ payload @ replicate (58 - length payload) 0) d = (Inr u, d1)"
    by (simp add: write_frame_def Let_def)
  then show ?thesis using True by (simp add: write_retry_Inr)
next
  case False
  obtain r d2 where first: "dev_write (buffer @ take 58 payload) d = (r, d2)"
    by (cases "dev_write (buffer @ take 58 payload) d")
  from assms False first obtain v where r: "r = Inr v"
    and rest: "write_remaining (drop 58 payload) d2 = (Inr u, d1)"
    by (cases r) (simp_all add: write_frame_def Let_def)
  from first r have "written d2 = written d @ [buffer @ take 58 payload]"
    by (simp add: dev_write_Inr)
  with rest False show ?thesis by (simp add: write_remaining_Inr)
qed

lemma written_dev_read: "written (snd (dev_read n d)) = written d"
  by (simp add: dev_read_def split: list.splits option.splits)

lemma written_read_reply: "written (snd (read_reply mode d)) = written d"
proof (cases "dev_read 64 (sleep 100 d)")
  case (Pair r d1)
  then have "written d1 = written d"
    using written_dev_read [of 64 "sleep 100 d"] by (simp add: written_sleep)
  with Pair show ?thesis
    by (simp add: read_reply_def split: sum.splits)
qed

text \<open>On a transport where no write fails, every write of a frame succeeds.\<close>

lemma dev_write_ok:
  assumes "True \<notin> set (write_script d)"
  shows "\<exists>d1. dev_write b d = (Inr (), d1) \<and> True \<notin> set (write_script d1)"
proof (cases "write_script d")
  case Nil
  then show ?thesis by (simp add: dev_write_def)
next
  case (Cons failing rest)
  with assms have "\<not> failing" and "True \<notin> set rest" by auto
  with Cons show ?thesis by (simp add: dev_write_def)
qed

lemma write_retry_ok:
  assumes "True \<notin> set (write_script d)"
  shows "\<exists>d1. write_retry b d = (Inr (), d1) \<and> True \<notin> set (write_script d1)"
proof -
  from dev_write_ok [OF assms] obtain d1
    where "dev_write b d = (Inr (), d1)" and "True \<notin> set (write_script d1)" by blast
  then show ?thesis by (simp add: write_retry_def)
qed

lemma write_remaining_ok:
  "True \<notin> set (write_script d) \<Longrightarrow> \<exists>d1. write_remaining remaining d = (Inr (), d1)"
proof (induction remaining d rule: write_remaining.induct)
  case (1 remaining_data d)
  show ?case
  proof (cases "length remaining_data > 0")
    case False
    then show ?thesis by (simp add: write_remaining.simps [of "[]"])
  next
    case True
    define chunk where "chunk = take 64 remaining_data @ replicate (64 - length (take 64 remaining_data)) (0::int)"
    have chunk': "(if length (take 64 remaining_data) < 64
                   then take 64 remaining_data @ replicate (64 - length (take 64 remaining_data)) 0
                   else take 64 remaining_data) = chunk"
      by (simp add: chunk_def)
    have unfold: "write_remaining remaining_data d =
        (case write_retry chunk d of
           (Inl e, d1) \<Rightarrow> (Inl e, d1)
         | (Inr u, d1) \<Rightarrow> write_remaining (drop 64 remaining_data) d1)"
      by (subst write_remaining.simps) (simp only: True if_True Let_def chunk')
    from write_retry_ok [OF 1(2)] obtain d2
      where wr: "write_retry chunk d = (Inr (), d2)" and ok: "True \<notin> set (write_script d2)"
      by blast
    have "\<exists>d1. write_remaining (drop 64 remaining_data) d2 = (Inr (), d1)"
      using 1(1) [OF True refl refl refl _ refl ok] wr chunk' by simp
    then show ?thesis unfolding unfold wr by simp
  qed
qed

lemma write_frame_ok:
  assumes "True \<notin> set (write_script d)"
  shows "\<exists>d1. write_frame buffer payload d = (Inr (), d1)"
proof (cases "length buffer + length payload < 65")
  case True
  with write_retry_ok [OF assms] show ?thesis
    by (simp add: write_frame_def Let_def) blast
next
  case False
  from dev_write_ok [OF assms] obtain d2
    where "dev_write (buffer @ take 58 payload) d = (Inr (), d2)"
      and "True \<notin> set (write_script d2)" by blast
  with False write_remaining_ok [of d2 "drop 58 payload"] show ?thesis
    by (simp add: write_frame_def Let_def)
qed

lemma and_255: "(k::int) AND 0xFF = k mod 256"
proof -
  have "take_bit 8 k = k AND mask 8" by (rule take_bit_eq_mask)
  moreover have "mask 8 = (255::int)" by (simp add: mask_eq_exp_minus_1)
  ultimately show ?thesis by (simp add: take_bit_eq_mod)
qed

lemma or_push_bit_8: "(k::int) mod 256 OR push_bit 8 l = k mod 256 + 256 * l"
  using concat_bit_eq [of 8 k l]
  by (simp add: concat_bit_def take_bit_eq_mod push_bit_eq_mult)

lemma command_header_is_spec_header:
  assumes "length payload + 6 \<le> 512"
  shows "command_header mode sequence_byte command payload
           = Inr (spec_header mode sequence_byte command payload)"
proof -
  from assms have "length payload + 2 < 65536" by simp
  then show ?thesis
    by (simp only: command_header_bytes spec_header_def and_255 drop_bit_eq_div) simp
qed

lemma length_spec_header: "length (spec_header mode sequence_byte command payload) = 6"
  by (simp add: spec_header_def)

lemma send_command_written:
  assumes "True \<notin> set (write_script d)" and "length payload + 6 \<le> 512"
  shows "written (snd (send_command mode sequence_byte command (Some payload) d)) =
           written d @
           (if length payload \<le> 58
            then [spec_header mode sequence_byte command payload @ payload
                    @ replicate (58 - length payload) 0]
            else (spec_header mode sequence_byte command payload @ take 58 payload)
                   # padded_chunks (drop 58 payload))"
proof -
  let ?hdr = "spec_header mode sequence_byte command payload"
  from write_frame_ok [OF assms(1)] obtain d1
    where wf: "write_frame ?hdr payload d = (Inr (), d1)" by blast
  have "send_command mode sequence_byte command (Some payload) d = read_reply mode d1"
    using assms(2)
    by (simp only: send_command_def option.case Let_def command_header_is_spec_header sum.case wf) simp
  then have "written (snd (send_command mode sequence_byte command (Some payload) d)) = written d1"
    by (simp add: written_read_reply)
  also have "\<dots> = written d @
           (if length payload \<le> 58
            then [?hdr @ payload @ replicate (58 - length payload) 0]
            else (?hdr @ take 58 payload) # padded_chunks (drop 58 payload))"
    by (rule write_frame_Inr [OF wf length_spec_header])
  finally show ?thesis .
qed

text \<open>
  Whenever \<open>send_command\<close> returns normally, also after a write that failed once and was
  tried again, the packets written are the same.
\<close>

lemma send_command_Inr:
  assumes "send_command mode sequence_byte command (Some payload) d = (Inr res, d')"
  shows "length payload + 6 \<le> 512"
    and "\<exists>d1. write_frame
           [if mode = ''r'' then 0xC0 else 0x40, sequence_byte,
            int ((length payload + 2) mod 256), int ((length payload + 2) div 256),
            command AND 0xFF, drop_bit 8 command AND 0xFF] payload d = (Inr (), d1)
          \<and> written d' = written d1"
proof -
  show small: "length payload + 6 \<le> 512"
  proof (rule ccontr)
    assume "\<not> length payload + 6 \<le> 512"
    with assms show False
      by (simp add: send_command_def split: sum.splits)
  qed
  then have hdr: "command_header mode sequence_byte command payload =
      Inr [if mode = ''r'' then 0xC0 else 0x40, sequence_byte,
           int ((length payload + 2) mod 256), int ((length payload + 2) div 256),
           command AND 0xFF, drop_bit 8 command AND 0xFF]"
    by (intro command_header_bytes) simp
  let ?hdr = "[if mode = ''r'' then 0xC0 else 0x40, sequence_byte,
           int ((length payload + 2) mod 256), int ((length payload + 2) div 256),
           command AND 0xFF, drop_bit 8 command AND 0xFF]"
  obtain r d1 where wf: "write_frame ?hdr payload d = (r, d1)"
    by (cases "write_frame ?hdr payload d")
  have run: "send_command mode sequence_byte command (Some payload) d =
      (case write_frame ?hdr payload d of
         (Inl e, d1) \<Rightarrow> (Inl e, d1)
       | (Inr u, d1) \<Rightarrow> read_reply mode d1)"
    using small by (simp only: send_command_def option.case Let_def hdr sum.case) simp
  from assms wf have r: "r = Inr ()"
    unfolding run by (cases r) simp_all
  from assms wf r have rd: "read_reply mode d1 = (Inr res, d')"
    unfolding run by simp
  from rd have "written d' = written d1"
    using written_read_reply [of mode d1] by simp
  with wf r show "\<exists>d1. write_frame ?hdr payload d = (Inr (), d1) \<and> written d' = written d1"
    by simp
qed

lemma send_command_written_on_return:
  assumes "send_command mode sequence_byte command (Some payload) d = (Inr res, d')"
  shows "written d' = written d @
           (if length payload \<le> 58
            then [spec_header mode sequence_byte command payload @ payload
                    @ replicate (58 - length payload) 0]
            else (spec_header mode sequence_byte command payload @ take 58 payload)
                   # padded_chunks (drop 58 payload))"
proof -
  have hdr: "[if mode = ''r'' then 0xC0 else 0x40, sequence_byte,
              int ((length payload + 2) mod 256), int ((length payload + 2) div 256),
              command AND 0xFF, drop_bit 8 command AND 0xFF]
             = spec_header mode sequence_byte command payload"
    by (simp only: spec_header_def and_255 drop_bit_eq_div) simp
  from send_command_Inr(2) [OF assms] obtain d1
    where wf: "write_frame (spec_header mode sequence_byte command payload) payload d = (Inr (), d1)"
      and same: "written d' = written d1"
    unfolding hdr by blast
  show ?thesis
    unfolding same by (rule write_frame_Inr [OF wf length_spec_header])
qed

lemma concat_sent_packets:
  "concat (if length payload \<le> 58
           then [hdr @ payload @ replicate (58 - length payload) 0]
           else (hdr @ take 58 payload) # padded_chunks (drop 58 payload))
     = hdr @ payload @ replicate (if length payload \<le> 58 then 58 - length payload
                                  else (64 - (length payload - 58) mod 64) mod 64) 0"
proof (cases "length payload \<le> 58")
  case True
  then show ?thesis by simp
next
  case False
  have "take 58 payload @ drop 58 payload = payload" by simp
  then have "hdr @ take 58 payload @ drop 58 payload @ zs = hdr @ payload @ zs" for zs :: "int list"
    by (metis append_assoc)
  with False show ?thesis by (simp add: concat_padded_chunks)
qed


section \<open>Parsing\<close>

lemma py_index_nat: "i < length xs \<Longrightarrow> py_index xs (int i) = Inr (xs ! i)"
  by (simp add: py_index_def)

lemma py_slice_after_header:
  assumes "0 \<le> l" and "4 \<le> length xs"
  shows "py_slice xs 4 (4 + l) = take (nat l) (drop 4 xs)"
proof -
  have lo: "clamp_bound (length xs) 4 = 4"
    using assms(2) by (simp add: clamp_bound_def)
  have hi: "clamp_bound (length xs) (4 + l) = min (length xs) (4 + nat l)"
    using assms(1) by (simp add: clamp_bound_def nat_add_distrib)
  have "take (min (length xs) (4 + nat l) - 4) (drop 4 xs) = take (nat l) (drop 4 xs)"
  proof (cases "4 + nat l \<le> length xs")
    case True
    then show ?thesis by (simp add: min_def)
  next
    case False
    then show ?thesis by (simp add: min_def)
  qed
  then show ?thesis by (simp add: py_slice_def Let_def lo hi)
qed

lemma parse_reply_header:
  assumes "4 \<le> length reply"
  shows "parse_reply (Some reply) =
           Inr (Some \<lparr>reply_error_flag = (reply ! 0 AND 0x20 \<noteq> 0),
                       reply_flag_byte = number_to_bits (reply ! 0) 8,
                       reply_sequence_byte = reply ! 1,
                       reply_length = reply ! 2 OR push_bit 8 (reply ! 3),
                       reply_data = py_slice reply 4 (4 + (reply ! 2 OR push_bit 8 (reply ! 3)))\<rparr>)"
proof -
  have "py_index reply (int 0) = Inr (reply ! 0)" "py_index reply (int 1) = Inr (reply ! 1)"
    "py_index reply (int 2) = Inr (reply ! 2)" "py_index reply (int 3) = Inr (reply ! 3)"
    by (rule py_index_nat, use assms in linarith)+
  then have "py_index reply 0 = Inr (reply ! 0)" "py_index reply 1 = Inr (reply ! 1)"
    "py_index reply 2 = Inr (reply ! 2)" "py_index reply 3 = Inr (reply ! 3)"
    by simp_all
  then show ?thesis by (simp add: parse_reply_def and_then_def Let_def)
qed

lemma parse_reply_wire:
  assumes "length payload + 6 \<le> 512" and "0 \<le> command" and "command < 65536"
  shows "parse_reply (Some (spec_header mode sequence_byte command payload @ payload @ zs)) =
           Inr (Some \<lparr>reply_error_flag = False,
                       reply_flag_byte = (if mode = ''r'' then ''11000000'' else ''01000000''),
                       reply_sequence_byte = sequence_byte,
                       reply_length = int (length payload) + 2,
                       reply_data = [command mod 256, command div 256] @ payload\<rparr>)"
proof -
  let ?w = "spec_header mode sequence_byte command payload @ payload @ zs"
  have long: "4 \<le> length ?w" by (simp add: length_spec_header)
  have flag: "?w ! 0 = (if mode = ''r'' then 0xC0 else 0x40)" and seq: "?w ! 1 = sequence_byte"
    and lo: "?w ! 2 = int ((length payload + 2) mod 256)"
    and hi: "?w ! 3 = int ((length payload + 2) div 256)"
    and rest: "drop 4 ?w = [command mod 256, command div 256 mod 256] @ payload @ zs"
    by (simp_all add: spec_header_def)
  have len: "?w ! 2 OR push_bit 8 (?w ! 3) = int (length payload) + 2"
    unfolding lo hi zmod_int zdiv_int
    using or_push_bit_8 [of "int (length payload + 2)" "int (length payload + 2) div 256"]
    by simp
  have bits: "number_to_bits 0xC0 8 = ''11000000''" "number_to_bits 0x40 8 = ''01000000''"
    by code_simp+
  have high: "command div 256 mod 256 = command div 256"
    using assms(2,3) by simp
  have nonneg: "0 \<le> int (length payload) + 2" by simp
  have data: "py_slice ?w 4 (4 + (int (length payload) + 2))
                = [command mod 256, command div 256] @ payload"
    unfolding py_slice_after_header [OF nonneg long] rest high
    by (simp add: nat_add_distrib)
  show ?thesis
    unfolding parse_reply_header [OF long] len data flag seq
    by (simp add: bits)
qed

section \<open>The RS485 frame checksum\<close>

text \<open>
  What \<open>_build_frame\<close> computes for a three-byte data field: when the checksum is
  taken, the frame has seven bytes and no tail yet, so the slice \<open>frame[3:-2]\<close> holds
  the function code and the first data byte only.
\<close>

lemma build_frame_three_bytes:
  assumes "0 \<le> f" and "f < 256"
  shows "build_frame f [b0, b1, b2] =
           Inr ([0x55, 0xAA, 0x01, f, b0, b1, b2] @ [(f + b0) AND 0xFF] @ [0xDA, 0xC3])"
  using assms
  by (simp add: build_frame_def py_bytes_def frame_header_def frame_tail_def address_def
      calculate_checksum_def py_slice_def clamp_bound_def Let_def)

text \<open>
  C2.  The claim: the checksum byte of a built frame is the sum of the function code and
  all three data bytes, masked to 8 bits, and the built frame passes the check of
  \<open>_validate_response\<close>.  The code does not do this: for function code \<open>0x03\<close> and
  data \<open>07 D0 00\<close> (the frame of \<open>set_output_current(2000)\<close>) the checksum byte is
  \<open>0x0A\<close>, the sum of the function code and the first data byte, where the sum over
  the function code and the three data bytes is \<open>0xDA\<close>; the built frame fails
  \<open>_validate_response\<close>, and the frame with the checksum \<open>0xDA\<close> passes it.
\<close>

theorem build_frame_checksum_skips_data_bytes:
  "build_frame 0x03 [0x07, 0xD0, 0x00]
     = Inr [0x55, 0xAA, 0x01, 0x03, 0x07, 0xD0, 0x00, 0x0A, 0xDA, 0xC3]
   \<and> calculate_checksum [0x03, 0x07, 0xD0, 0x00] = 0xDA
   \<and> \<not> validate_response [0x55, 0xAA, 0x01, 0x03, 0x07, 0xD0, 0x00, 0x0A, 0xDA, 0xC3] 0x03
   \<and> validate_response [0x55, 0xAA, 0x01, 0x03, 0x07, 0xD0, 0x00, 0xDA, 0xDA, 0xC3] 0x03"
  by code_simp


section \<open>The current limit\<close>

text \<open>
  C10.  For every \<open>current_ma\<close> greater than 3500, \<open>set_output_current\<close> returns
  \<open>False\<close> and leaves the serial device as it was: nothing is written, nothing is read,
  no frame is built.
\<close>

theorem set_output_current_over_limit:
  "3500 < current_ma \<Longrightarrow> set_output_current current_ma s = (Inr False, s)"
  by (simp add: set_output_current_def)

theorem set_output_current_over_limit_witness:
  "(3500::int) < 3501 \<and>
   set_output_current 3501
       \<lparr>ser_wfail = [], ser_replies = [], ser_written = [], ser_slept = 0\<rparr>
     = (Inr False, \<lparr>ser_wfail = [], ser_replies = [], ser_written = [], ser_slept = 0\<rparr>)"
  using set_output_current_over_limit
    [of 3501 "\<lparr>ser_wfail = [], ser_replies = [], ser_written = [], ser_slept = 0\<rparr>"]
  by simp


section \<open>The display-mode precondition\<close>

text \<open>
  C8.  Whenever the cached mode is not \<open>video\<close>, \<open>set_display_mode('video-pattern')\<close>
  raises the \<open>ValueError\<close> of its second check and returns the object unchanged: the
  count of transport calls, the log of written packets and the cached mode are what they
  were.
\<close>

theorem video_pattern_requires_video:
  assumes "current_mode d \<noteq> ''video''"
  shows "set_display_mode ''video-pattern'' d =
           (Inl video_pattern_error, d)
         \<and> calls (snd (set_display_mode ''video-pattern'' d)) = calls d
         \<and> written (snd (set_display_mode ''video-pattern'' d)) = written d
         \<and> current_mode (snd (set_display_mode ''video-pattern'' d)) = current_mode d"
  using assms by (simp add: set_display_mode_def display_modes_def)

theorem video_pattern_requires_video_witness:
  "current_mode \<lparr>current_mode = ''pattern'', write_script = [], read_script = [],
                  written = [], calls = 0, slept = 0\<rparr> \<noteq> ''video''
   \<and> set_display_mode ''video-pattern''
        \<lparr>current_mode = ''pattern'', write_script = [], read_script = [],
         written = [], calls = 0, slept = 0\<rparr>
      = (Inl video_pattern_error,
         \<lparr>current_mode = ''pattern'', write_script = [], read_script = [],
          written = [], calls = 0, slept = 0\<rparr>)"
  using video_pattern_requires_video
    [of "\<lparr>current_mode = ''pattern'', write_script = [], read_script = [],
          written = [], calls = 0, slept = 0\<rparr>"]
  by simp


section \<open>The power mode\<close>

text \<open>
  C9.  The claim: \<open>get_current_powermode\<close> returns one of \<open>normal\<close>, \<open>idle\<close>,
  \<open>standby\<close> and \<open>undocumented state\<close> for every pair of reply bytes.  The code does
  not: with sleep flag 0 and idle flag 2 no branch returns, and the result is \<open>None\<close>.
\<close>

theorem get_current_powermode_returns_None:
  "fst (get_current_powermode
     \<lparr>current_mode = ''pattern'', write_script = [],
      read_script = [Some [0x00, 0x00, 0x01, 0x00, 0x02], Some [0x00, 0x00, 0x01, 0x00, 0x00]],
      written = [], calls = 0, slept = 0\<rparr>) = Inr None"
  by code_simp


section \<open>The status checks\<close>

text \<open>
  C5.  The claim: each check raises exactly when the status bits it examines are unset.
  The code compares characters of the bit string with the integer \<open>0\<close>, which are never
  equal: \<open>check_communication_status\<close> raises also for the status byte \<open>0xFF\<close>, and
  \<open>check_system_status\<close> returns normally also for the status byte \<open>0x00\<close>.
\<close>

theorem status_checks_ignore_status_byte:
  "fst (check_communication_status
     \<lparr>current_mode = ''pattern'', write_script = [],
      read_script = [Some [0x00, 0x0A, 0x01, 0x00, 0xFF]],
      written = [], calls = 0, slept = 0\<rparr>)
     = Inl (DMDerror ''Controller cannot communicate with DMD'')
   \<and> fst (check_system_status
     \<lparr>current_mode = ''pattern'', write_script = [],
      read_script = [Some [0x00, 0x0A, 0x01, 0x00, 0x00]],
      written = [], calls = 0, slept = 0\<rparr>) = Inr ()"
  by code_simp


text \<open>
  The same for every status byte: whenever the read delivers a reply with a first data
  byte, \<open>check_system_status\<close> returns normally and \<open>check_communication_status\<close>
  raises.
\<close>

lemma length_zero_fill_ge: "width \<le> length (zero_fill width s)"
  by (simp add: zero_fill_def)

lemma length_number_to_bits_8: "8 \<le> length (number_to_bits a 8)"
proof (cases "a < 0")
  case True
  have "7 \<le> length (zero_fill 7 (bin_digits (nat (- a))))" by (rule length_zero_fill_ge)
  with True show ?thesis by (simp add: number_to_bits_def)
next
  case False
  have "8 \<le> length (zero_fill 8 (bin_digits (nat a)))" by (rule length_zero_fill_ge)
  with False show ?thesis by (simp add: number_to_bits_def)
qed

lemma str_index_bits:
  assumes "i < 8"
  shows "str_index (number_to_bits a 8) (int i) = Inr (PyStr [number_to_bits a 8 ! i])"
proof -
  from assms length_number_to_bits_8 [of a] have "i < length (number_to_bits a 8)" by linarith
  then show ?thesis by (simp add: str_index_def py_index_def)
qed

lemma check_system_status_returns_for_every_status:
  assumes "send_command ''r'' 10 0x1A0B (Some []) d = (Inr ans, d1)"
    and "first_data_byte ans = Inr status"
  shows "check_system_status d = (Inr (), d1)"
  using assms str_index_bits [of 0 status]
  by (simp add: check_system_status_def and_then_def Let_def)

lemma check_communication_status_raises_for_every_status:
  assumes "send_command ''r'' 10 0x1A49 (Some []) d = (Inr ans, d1)"
    and "first_data_byte ans = Inr status"
  shows "check_communication_status d =
           (Inl (DMDerror ''Controller cannot communicate with DMD''), d1)"
  using assms str_index_bits [of 0 status] str_index_bits [of 2 status]
  by (simp add: check_communication_status_def and_then_def Let_def)


section \<open>The payload of \<open>start_pattern_from_LUT\<close>\<close>

text \<open>
  C6.  The claim: the first payload byte is \<open>entry_count & 0xFF\<close>, the second holds the
  high bits, and four bytes of \<open>repeat_count\<close> follow, least significant first.  The
  code cuts the 10-character bit string from the left, into its first eight characters and
  its last two: for 5 entries the payload starts with \<open>01 01\<close>, not \<open>05 00\<close>.
\<close>

theorem start_pattern_from_LUT_payload_misaligned:
  "start_pattern_from_LUT_payload 5 0 = Inr [0x01, 0x01, 0x00, 0x00, 0x00, 0x00]"
  by code_simp

text \<open>
  The same for every entry count of 10 bits: the payload starts with the two low bits of
  the count and then the eight bits above them, whatever the bytes of the repeat count
  are.
\<close>

lemma start_pattern_from_LUT_payload_first_bytes:
  assumes "n < 1024" and "bits_to_bytes (number_to_bits r 32) = Inr byte_25"
  shows "start_pattern_from_LUT_payload (int n) r = Inr ([int (n mod 4), int (n div 4)] @ byte_25)"
  using assms by (simp add: start_pattern_from_LUT_payload_def and_then_def bits_to_bytes_10)


section \<open>Retrying a failed write\<close>

text \<open>
  C3.  The claim: every chunk write, the first chunk of a frame of several chunks too, is
  tried again once after a failure.  The code writes the first chunk of such a frame
  outside any \<open>try\<close>: with a 59-byte payload and a transport whose next write fails,
  \<open>send_command\<close> raises \<open>USBError\<close> after one call and no sleep.  With a 58-byte
  payload, a frame of one chunk, the same failure is followed by a sleep and a second
  write, which succeeds.
\<close>

theorem first_chunk_written_without_retry:
  "send_command ''w'' 1 0x1A2B (Some (replicate 59 0x07))
     \<lparr>current_mode = ''pattern'', write_script = [True], read_script = [],
      written = [], calls = 0, slept = 0\<rparr>
   = (Inl USBError, \<lparr>current_mode = ''pattern'', write_script = [], read_script = [],
      written = [], calls = 1, slept = 0\<rparr>)
   \<and> send_command ''w'' 1 0x1A2B (Some (replicate 58 0x07))
     \<lparr>current_mode = ''pattern'', write_script = [True], read_script = [],
      written = [], calls = 0, slept = 0\<rparr>
   = (Inr None, \<lparr>current_mode = ''pattern'', write_script = [], read_script = [],
      written = [[0x40, 0x01, 0x3C, 0x00, 0x2B, 0x1A] @ replicate 58 0x07],
      calls = 2, slept = 100\<rparr>)"
  by code_simp


section \<open>Short replies\<close>

text \<open>
  C4.  The claim: a reply with fewer data bytes than its length field announces is a
  protocol error, and every returned frame has exactly \<open>length\<close> data bytes.  The code
  has no such check: the reply \<open>00 00 05 00 01 02\<close> announces five data bytes, holds two,
  and is parsed without error into a frame with length 5 and the two data bytes.
\<close>

theorem parse_reply_truncates_silently:
  "parse_reply (Some [0x00, 0x00, 0x05, 0x00, 0x01, 0x02]) =
     Inr (Some \<lparr>reply_error_flag = False, reply_flag_byte = ''00000000'',
                 reply_sequence_byte = 0, reply_length = 5, reply_data = [0x01, 0x02]\<rparr>)"
  by code_simp

text \<open>
  C4, as amended.  For every reply of at least four bytes, \<open>parse_reply\<close> returns a
  frame; its length is the little-endian value of bytes 2 and 3, and its data field holds
  the bytes after the four header bytes, cut after \<open>length\<close> bytes: it has \<open>length\<close>
  bytes when that many were received, and all the received ones otherwise.
\<close>

theorem parse_reply_data_cut:
  assumes "4 \<le> length reply" and "list_all (\<lambda>b. 0 \<le> b \<and> b < 256) reply"
  shows "\<exists>fr. parse_reply (Some reply) = Inr (Some fr)
           \<and> reply_length fr = reply ! 2 + 256 * reply ! 3
           \<and> reply_data fr = take (nat (reply_length fr)) (drop 4 reply)
           \<and> length (reply_data fr) = min (nat (reply_length fr)) (length reply - 4)"
proof -
  from assms have b2: "0 \<le> reply ! 2" "reply ! 2 < 256" and b3: "0 \<le> reply ! 3"
    by (simp_all add: list_all_length)
  have len: "reply ! 2 OR push_bit 8 (reply ! 3) = reply ! 2 + 256 * reply ! 3"
    using or_push_bit_8 [of "reply ! 2" "reply ! 3"] b2 by simp
  have nonneg: "0 \<le> reply ! 2 + 256 * reply ! 3" using b2 b3 by simp
  show ?thesis
    unfolding parse_reply_header [OF assms(1)] len
    by (simp add: py_slice_after_header [OF nonneg assms(1)] min.commute)
qed

theorem parse_reply_data_cut_witness:
  "4 \<le> length [0x00, 0x00, 0x05, 0x00, 0x01, 0x02 :: int]
   \<and> list_all (\<lambda>b. 0 \<le> b \<and> b < 256) [0x00, 0x00, 0x05, 0x00, 0x01, 0x02 :: int]
   \<and> (\<exists>fr. parse_reply (Some [0x00, 0x00, 0x05, 0x00, 0x01, 0x02]) = Inr (Some fr)
         \<and> reply_length fr = 5 \<and> reply_data fr = [0x01, 0x02] \<and> length (reply_data fr) = 2)"
proof -
  have h1: "4 \<le> length [0x00, 0x00, 0x05, 0x00, 0x01, 0x02 :: int]" by simp
  have h2: "list_all (\<lambda>b. 0 \<le> b \<and> b < 256) [0x00, 0x00, 0x05, 0x00, 0x01, 0x02 :: int]" by simp
  from parse_reply_data_cut [OF h1 h2] show ?thesis by auto
qed


section \<open>Chunking\<close>

text \<open>
  C7.  On a transport where no write fails, and for a payload with
  \<open>len(payload) + 6 \<le> 512\<close>: a payload of up to 58 bytes is written as one packet, the
  header and the payload filled with zeros up to 64 bytes; a payload of 59 bytes or more
  is written as a first packet with the header and the first 58 payload bytes, followed by
  packets of 64 bytes each that together hold the remaining payload and then fewer than
  64 zeros; a payload of 59 bytes gives two packets.
\<close>

theorem send_command_chunking:
  assumes "True \<notin> set (write_script d)" and "length payload + 6 \<le> 512"
  shows "(length payload \<le> 58 \<longrightarrow>
            written (snd (send_command mode sequence_byte command (Some payload) d))
              = written d @ [spec_header mode sequence_byte command payload @ payload
                               @ replicate (58 - length payload) 0])
       \<and> (59 \<le> length payload \<longrightarrow>
            (\<exists>rest. written (snd (send_command mode sequence_byte command (Some payload) d))
                       = written d @ (spec_header mode sequence_byte command payload
                                        @ take 58 payload) # rest
               \<and> (\<forall>p \<in> set rest. length p = 64)
               \<and> concat rest = drop 58 payload
                                 @ replicate ((64 - (length payload - 58) mod 64) mod 64) 0))
       \<and> (length payload = 59 \<longrightarrow>
            length (written (snd (send_command mode sequence_byte command (Some payload) d)))
              = length (written d) + 2)"
proof (intro conjI impI)
  assume "length payload \<le> 58"
  then show "written (snd (send_command mode sequence_byte command (Some payload) d))
              = written d @ [spec_header mode sequence_byte command payload @ payload
                               @ replicate (58 - length payload) 0]"
    by (simp add: send_command_written [OF assms])
next
  assume "59 \<le> length payload"
  then have w: "written (snd (send_command mode sequence_byte command (Some payload) d))
      = written d @ (spec_header mode sequence_byte command payload @ take 58 payload)
                      # padded_chunks (drop 58 payload)"
    by (simp add: send_command_written [OF assms])
  have "\<forall>p \<in> set (padded_chunks (drop 58 payload)). length p = 64"
    by (simp add: packet_length_padded_chunks)
  moreover have "concat (padded_chunks (drop 58 payload))
      = drop 58 payload @ replicate ((64 - (length payload - 58) mod 64) mod 64) 0"
    by (simp add: concat_padded_chunks)
  ultimately show "\<exists>rest. written (snd (send_command mode sequence_byte command (Some payload) d))
                       = written d @ (spec_header mode sequence_byte command payload
                                        @ take 58 payload) # rest
               \<and> (\<forall>p \<in> set rest. length p = 64)
               \<and> concat rest = drop 58 payload
                                 @ replicate ((64 - (length payload - 58) mod 64) mod 64) 0"
    using w by blast
next
  assume "length payload = 59"
  then show "length (written (snd (send_command mode sequence_byte command (Some payload) d)))
              = length (written d) + 2"
    by (simp add: send_command_written [OF assms] length_padded_chunks)
qed

theorem send_command_chunking_witness:
  "True \<notin> set (write_script \<lparr>current_mode = ''pattern'', write_script = [False], read_script = [],
                               written = [], calls = 0, slept = 0\<rparr>)
   \<and> length (replicate 59 (0x07::int)) + 6 \<le> 512
   \<and> length (written (snd (send_command ''w'' 1 0x1A2B (Some (replicate 59 0x07))
        \<lparr>current_mode = ''pattern'', write_script = [False], read_script = [],
         written = [], calls = 0, slept = 0\<rparr>))) = 2"
proof -
  let ?d = "\<lparr>current_mode = ''pattern'', write_script = [False], read_script = [],
             written = [], calls = 0, slept = 0\<rparr>"
  have h1: "True \<notin> set (write_script ?d)" by simp
  have h2: "length (replicate 59 (0x07::int)) + 6 \<le> 512" by simp
  from send_command_chunking [OF h1 h2, of "''w''" 1 "0x1A2B"] h1 h2 show ?thesis by simp
qed


section \<open>Serialising and parsing back\<close>

text \<open>
  C1.  For every direction, sequence byte, 16-bit command and payload with
  \<open>len(payload) + 6 \<le> 512\<close>: the header that \<open>send_command\<close> builds is the one the
  specification words, and on a transport where no write fails, the bytes that
  \<open>send_command\<close> writes, the packets of the call put one after the other, are parsed by
  \<open>parse_reply\<close> into a frame with the original sequence byte, with a data field that
  holds the two command bytes, least significant first, followed by the payload, and with
  the length \<open>len(payload) + 2\<close>; the flag byte is \<open>11000000\<close> for a read and
  \<open>01000000\<close> for a write, and its error bit is clear.
\<close>

theorem sent_command_parses_back:
  assumes "True \<notin> set (write_script d)" and "length payload + 6 \<le> 512"
    and "0 \<le> command" and "command < 65536"
  shows "command_header mode sequence_byte command payload
           = Inr (spec_header mode sequence_byte command payload)
         \<and> (\<exists>fr. parse_reply (Some (concat (drop (length (written d))
                  (written (snd (send_command mode sequence_byte command (Some payload) d))))))
               = Inr (Some fr)
           \<and> reply_sequence_byte fr = sequence_byte
           \<and> reply_data fr ! 0 OR push_bit 8 (reply_data fr ! 1) = command
           \<and> drop 2 (reply_data fr) = payload
           \<and> reply_length fr = int (length payload) + 2
           \<and> reply_flag_byte fr = (if mode = ''r'' then ''11000000'' else ''01000000'')
           \<and> \<not> reply_error_flag fr)"
proof -
  define zs where "zs = replicate (if length payload \<le> 58 then 58 - length payload
                                   else (64 - (length payload - 58) mod 64) mod 64) (0::int)"
  have new: "drop (length (written d))
          (written (snd (send_command mode sequence_byte command (Some payload) d)))
        = (if length payload \<le> 58
           then [spec_header mode sequence_byte command payload @ payload
                   @ replicate (58 - length payload) 0]
           else (spec_header mode sequence_byte command payload @ take 58 payload)
                  # padded_chunks (drop 58 payload))"
    unfolding send_command_written [OF assms(1,2)] by simp
  have "concat (drop (length (written d))
          (written (snd (send_command mode sequence_byte command (Some payload) d))))
        = spec_header mode sequence_byte command payload @ payload @ zs"
    unfolding new zs_def by (rule concat_sent_packets)
  moreover note parse_reply_wire [OF assms(2,3,4), of mode sequence_byte zs]
  moreover have "command mod 256 OR push_bit 8 (command div 256) = command"
    using or_push_bit_8 [of command "command div 256"] by simp
  ultimately show ?thesis
    by (simp add: command_header_is_spec_header [OF assms(2)])
qed

theorem sent_command_parses_back_witness:
  "True \<notin> set (write_script \<lparr>current_mode = ''pattern'', write_script = [], read_script = [],
                               written = [], calls = 0, slept = 0\<rparr>)
   \<and> length [0x01, 0x02, 0x03 :: int] + 6 \<le> 512
   \<and> (0::int) \<le> 0x1A2B \<and> (0x1A2B::int) < 65536
   \<and> command_header ''w'' 0x07 0x1A2B [0x01, 0x02, 0x03]
       = Inr (spec_header ''w'' 0x07 0x1A2B [0x01, 0x02, 0x03])
   \<and> (\<exists>fr. parse_reply (Some (concat (drop (length (written
                  \<lparr>current_mode = ''pattern'', write_script = [], read_script = [],
                   written = [], calls = 0, slept = 0\<rparr>))
                  (written (snd (send_command ''w'' 0x07 0x1A2B (Some [0x01, 0x02, 0x03])
                     \<lparr>current_mode = ''pattern'', write_script = [], read_script = [],
                      written = [], calls = 0, slept = 0\<rparr>))))))
               = Inr (Some fr)
           \<and> reply_sequence_byte fr = 0x07
           \<and> reply_data fr ! 0 OR push_bit 8 (reply_data fr ! 1) = 0x1A2B
           \<and> drop 2 (reply_data fr) = [0x01, 0x02, 0x03]
           \<and> reply_length fr = int (length [0x01, 0x02, 0x03 :: int]) + 2
           \<and> reply_flag_byte fr = (if ''w'' = ''r'' then ''11000000'' else ''01000000'')
           \<and> \<not> reply_error_flag fr)"
proof -
  let ?d = "\<lparr>current_mode = ''pattern'', write_script = [], read_script = [],
             written = [], calls = 0, slept = 0\<rparr>"
  have h1: "True \<notin> set (write_script ?d)" by simp
  have h2: "length [0x01, 0x02, 0x03 :: int] + 6 \<le> 512" by simp
  have h3: "(0::int) \<le> 0x1A2B" by simp
  have h4: "(0x1A2B::int) < 65536" by simp
  note result = sent_command_parses_back [OF h1 h2 h3 h4, of "''w''" "0x07"]
  show ?thesis
  proof (intro conjI)
    show "command_header ''w'' 0x07 0x1A2B [0x01, 0x02, 0x03]
            = Inr (spec_header ''w'' 0x07 0x1A2B [0x01, 0x02, 0x03])"
      using result by (rule conjunct1)
    show "\<exists>fr. parse_reply (Some (concat (drop (length (written ?d))
                  (written (snd (send_command ''w'' 0x07 0x1A2B (Some [0x01, 0x02, 0x03]) ?d))))))
               = Inr (Some fr)
           \<and> reply_sequence_byte fr = 0x07
           \<and> reply_data fr ! 0 OR push_bit 8 (reply_data fr ! 1) = 0x1A2B
           \<and> drop 2 (reply_data fr) = [0x01, 0x02, 0x03]
           \<and> reply_length fr = int (length [0x01, 0x02, 0x03 :: int]) + 2
           \<and> reply_flag_byte fr = (if ''w'' = ''r'' then ''11000000'' else ''01000000'')
           \<and> \<not> reply_error_flag fr"
      using result by (rule conjunct2)
  qed (rule h1 h2 h3 h4)+
qed

end
